theory Spec2Isabelle
  imports Main "HOL-Library.Word"
begin

section \<open>The C2 runtime interface (opto/runtime.hpp)\<close>

text \<open>
  A shallow embedding of the inline code of \<^verbatim>\<open>src/hotspot/share/opto/runtime.hpp\<close>:
  the class \<^verbatim>\<open>NamedCounter\<close>, the enumeration \<^verbatim>\<open>OptoStubId\<close> and the accessor
  \<^verbatim>\<open>OptoRuntime::stub_name(OptoStubId)\<close>. A failing \<^verbatim>\<open>assert\<close> and an array read
  outside the array are results of their own, so that no branch of the source is hidden
  behind an unspecified value.
\<close>

datatype error =
    AssertionFailed string
  | IndexOutOfBounds

subsection \<open>Stub ids and stub names\<close>

text \<open>
  \<^verbatim>\<open>enum class OptoStubId : int { NO_STUBID = -1, C2_STUBS_DO(...) NUM_STUBIDS };\<close>
  The macro \<^verbatim>\<open>C2_STUBS_DO\<close> is declared in \<^verbatim>\<open>runtime/stubDeclarations.hpp\<close>, which is
  not part of the sources at hand; its expansion is a parameter here: the list of the
  declared stubs, one enumerator each. An enumerator without an initialiser has the value
  of its predecessor plus one, so the enumerators of the list count up from 0 and
  \<^verbatim>\<open>NUM_STUBIDS\<close> is the number of declared stubs. A value of the enumeration is
  any \<^verbatim>\<open>int\<close>, modelled as its integer value.
\<close>

type_synonym OptoStubId = int

definition NO_STUBID :: OptoStubId where
  "NO_STUBID = - 1"

fun enum_values :: "OptoStubId \<Rightarrow> 'a list \<Rightarrow> OptoStubId list" where
  "enum_values prev [] = []"
| "enum_values prev (x # xs) = (prev + 1) # enum_values (prev + 1) xs"

definition NUM_STUBIDS :: "'a list \<Rightarrow> OptoStubId" where
  "NUM_STUBIDS stubs = last (NO_STUBID # enum_values NO_STUBID stubs) + 1"

text \<open>
  \<^verbatim>\<open>static const char* stub_name(OptoStubId id) {
    assert(id > OptoStubId::NO_STUBID && id < OptoStubId::NUM_STUBIDS, "stub id out of range");
    return _stub_names[(int)id];
  }\<close>
  The array \<^verbatim>\<open>_stub_names\<close> is only declared in the header (\<^verbatim>\<open>static const char
  *_stub_names[]\<close>); its contents are the parameter \<open>names\<close>. Reading it outside its
  bounds is undefined in C++ and is the result \<open>IndexOutOfBounds\<close> here.
\<close>

definition stub_name :: "'a list \<Rightarrow> string list \<Rightarrow> OptoStubId \<Rightarrow> error + string" where
  "stub_name stubs names sid =
     (if \<not> (sid > NO_STUBID \<and> sid < NUM_STUBIDS stubs)
      then Inl (AssertionFailed ''stub id out of range'')
      else if 0 \<le> sid \<and> nat sid < length names
      then Inr (names ! nat sid)
      else Inl IndexOutOfBounds)"

subsection \<open>Named counters\<close>

text \<open>
  \<^verbatim>\<open>class NamedCounter\<close>: the tag enumeration and the four private members. A pointer
  is an address or \<^verbatim>\<open>nullptr\<close> (\<open>None\<close>). The C heap holding the characters of the name
  strings is a map from the address of a string to its contents.
\<close>

datatype CounterTag = NoTag | LockCounter | EliminatedLockCounter

type_synonym addr = nat

type_synonym ptr = "addr option"

type_synonym cheap = "addr \<rightharpoonup> string"

record NamedCounter =
  m_name :: ptr
  m_count :: "32 word"
  m_tag :: CounterTag
  m_next :: ptr

text \<open>
  \<^verbatim>\<open>os::strdup\<close> is declared in \<^verbatim>\<open>runtime/os.hpp\<close>, outside the sources at hand, and
  is a parameter of the constructor: a function from the C heap and the address of the
  string to the pointer it returns and the C heap afterwards. What the constructor relies
  on is the contract of \<^verbatim>\<open>strdup\<close>: the call either fails, returning \<^verbatim>\<open>nullptr\<close> and
  leaving the heap as it was, or returns the address of a newly allocated block, one that
  was not in use, holding a copy of the characters.
\<close>

type_synonym strdup_fn = "cheap \<Rightarrow> addr \<Rightarrow> ptr \<times> cheap"

definition strdup_contract :: "strdup_fn \<Rightarrow> bool" where
  "strdup_contract os_strdup =
     (\<forall>h p. case os_strdup h p of
              (None, h') \<Rightarrow> h' = h
            | (Some q, h') \<Rightarrow> q \<notin> dom h \<and> h' = h(q := h p))"

text \<open>Two functions with this contract: one that always fails, and one that allocates
  at a given address when that address is free.\<close>

definition strdup_fails :: strdup_fn where
  "strdup_fails h p = (None, h)"

definition strdup_at :: "addr \<Rightarrow> strdup_fn" where
  "strdup_at q h p = (if h q = None then (Some q, h(q := h p)) else (None, h))"

text \<open>
  \<^verbatim>\<open>NamedCounter(const char *n, CounterTag tag = NoTag):
    _name(n == nullptr ? nullptr : os::strdup(n)), _count(0), _tag(tag), _next(nullptr) {}\<close>
\<close>

definition new_NamedCounter ::
  "strdup_fn \<Rightarrow> cheap \<Rightarrow> ptr \<Rightarrow> CounterTag \<Rightarrow> NamedCounter \<times> cheap" where
  "new_NamedCounter os_strdup h n tag =
     (case (case n of None \<Rightarrow> (None, h) | Some p \<Rightarrow> os_strdup h p) of
        (nm, h') \<Rightarrow> (\<lparr>m_name = nm, m_count = 0, m_tag = tag, m_next = None\<rparr>, h'))"

definition new_NamedCounter_default ::
  "strdup_fn \<Rightarrow> cheap \<Rightarrow> ptr \<Rightarrow> NamedCounter \<times> cheap" where
  "new_NamedCounter_default os_strdup h n = new_NamedCounter os_strdup h n NoTag"

text \<open>The accessors \<^verbatim>\<open>name()\<close>, \<^verbatim>\<open>count()\<close>, \<^verbatim>\<open>tag()\<close>, \<^verbatim>\<open>set_tag\<close> and
  \<^verbatim>\<open>next()\<close>.\<close>

definition NamedCounter_name :: "NamedCounter \<Rightarrow> ptr" where
  "NamedCounter_name c = m_name c"

definition NamedCounter_count :: "NamedCounter \<Rightarrow> 32 word" where
  "NamedCounter_count c = m_count c"

definition NamedCounter_tag :: "NamedCounter \<Rightarrow> CounterTag" where
  "NamedCounter_tag c = m_tag c"

definition NamedCounter_set_tag :: "NamedCounter \<Rightarrow> CounterTag \<Rightarrow> NamedCounter" where
  "NamedCounter_set_tag c tag = c\<lparr>m_tag := tag\<rparr>"

definition NamedCounter_next :: "NamedCounter \<Rightarrow> ptr" where
  "NamedCounter_next c = m_next c"

text \<open>
  \<^verbatim>\<open>void set_next(NamedCounter* next) {
    assert(_next == nullptr || next == nullptr, "already set");
    _next = next;
  }\<close>
\<close>

definition NamedCounter_set_next :: "NamedCounter \<Rightarrow> ptr \<Rightarrow> error + NamedCounter" where
  "NamedCounter_set_next c nxt =
     (if m_next c = None \<or> nxt = None
      then Inr (c\<lparr>m_next := nxt\<rparr>)
      else Inl (AssertionFailed ''already set''))"

subsection \<open>The list of named counters\<close>

text \<open>
  \<^verbatim>\<open>static NamedCounter * volatile _named_counters;\<close> is the head of the list of all
  counters. The counters are objects on the C heap: the store \<open>objects\<close> holds them in
  the order of their allocation, and the address of a counter is its index there.
\<close>

record OptoRuntime =
  objects :: "NamedCounter list"
  named_counters :: ptr
  strings :: cheap

definition initial_runtime :: "cheap \<Rightarrow> OptoRuntime" where
  "initial_runtime h = \<lparr>objects = [], named_counters = None, strings = h\<rparr>"

text \<open>
  Modelled from the spec: the body of \<^verbatim>\<open>OptoRuntime::new_named_counter\<close> is in
  \<^verbatim>\<open>runtime.cpp\<close>, which is not part of the sources at hand; the header declares it as
  \<^verbatim>\<open>static NamedCounter* new_named_counter(JVMState* jvms, NamedCounter::CounterTag tag)\<close>.
  Section 4.5 of the spec: "\<open>create(name, tag)\<close> allocates a counter, appends it to the
  global list (link set exactly once), returns a handle". The list is reached through its
  head pointer only, so the new counter is linked in front of the current head (the head
  insertion of section 9), by one call of \<^verbatim>\<open>set_next\<close>. The name, which the source
  derives from \<open>jvms\<close>, is the argument \<open>n\<close>.
\<close>

definition new_named_counter ::
  "strdup_fn \<Rightarrow> OptoRuntime \<Rightarrow> ptr \<Rightarrow> CounterTag \<Rightarrow> error + (ptr \<times> OptoRuntime)" where
  "new_named_counter os_strdup st n tag =
     (case new_NamedCounter os_strdup (strings st) n tag of
        (c, h') \<Rightarrow>
          (case NamedCounter_set_next c (named_counters st) of
             Inl e \<Rightarrow> Inl e
           | Inr c' \<Rightarrow>
               Inr (Some (length (objects st)),
                    st\<lparr>objects := objects st @ [c'],
                       named_counters := Some (length (objects st)),
                       strings := h'\<rparr>)))"

text \<open>A run of the registry: one counter after the other, stopping at a failed assertion.\<close>

fun new_named_counters ::
  "strdup_fn \<Rightarrow> OptoRuntime \<Rightarrow> (ptr \<times> CounterTag) list \<Rightarrow> error + OptoRuntime" where
  "new_named_counters os_strdup st [] = Inr st"
| "new_named_counters os_strdup st ((n, tag) # rs) =
     (case new_named_counter os_strdup st n tag of
        Inl e \<Rightarrow> Inl e
      | Inr (_, st') \<Rightarrow> new_named_counters os_strdup st' rs)"

text \<open>
  Following the \<^verbatim>\<open>_next\<close> links from a pointer, as \<^verbatim>\<open>print_named_counters\<close> has to:
  the addresses visited, in order, up to \<^verbatim>\<open>nullptr\<close>. The walk has fuel, and gives
  \<open>None\<close> when the fuel runs out before \<^verbatim>\<open>nullptr\<close> is reached (as it does on a
  cycle, whatever the fuel) or when a link leaves the store.
\<close>

fun walk :: "NamedCounter list \<Rightarrow> nat \<Rightarrow> ptr \<Rightarrow> addr list option" where
  "walk objs fuel None = Some []"
| "walk objs 0 (Some a) = None"
| "walk objs (Suc fuel) (Some a) =
     (if a < length objs
      then map_option ((#) a) (walk objs fuel (NamedCounter_next (objs ! a)))
      else None)"

text \<open>The invariant of the list: every counter points to the one allocated just before
  it, the first one to \<^verbatim>\<open>nullptr\<close>, and the head is the counter allocated last.\<close>

definition head_of :: "NamedCounter list \<Rightarrow> ptr" where
  "head_of objs = (if objs = [] then None else Some (length objs - 1))"

definition chained :: "NamedCounter list \<Rightarrow> bool" where
  "chained objs =
     (\<forall>a < length objs. m_next (objs ! a) = (if a = 0 then None else Some (a - 1)))"

definition linked :: "OptoRuntime \<Rightarrow> bool" where
  "linked st = (chained (objects st) \<and> named_counters st = head_of (objects st))"

section \<open>Properties\<close>

subsection \<open>Stub ids\<close>

lemma last_enum_values:
  "last (prev # enum_values prev xs) = prev + int (length xs)"
  by (induction xs arbitrary: prev) auto

lemma NUM_STUBIDS_length: "NUM_STUBIDS stubs = int (length stubs)"
  by (simp add: NUM_STUBIDS_def last_enum_values NO_STUBID_def del: last.simps)

text \<open>
  C9. \<^verbatim>\<open>stub_name(id)\<close> is safe exactly when \<open>NO_STUBID < id < NUM_STUBIDS\<close>: for an
  array \<^verbatim>\<open>_stub_names\<close> with one entry per declared stub, an id in that range passes the
  assertion, indexes inside the array and returns the entry at \<open>id\<close>; every other id,
  the sentinel \<open>NO_STUBID = -1\<close> among them, fails the assertion. Nothing but an id in
  the range returns a name, and the out-of-bounds branch is never reached.
\<close>

theorem stub_name_safe_iff_in_range:
  assumes "length names = length stubs"
  shows "(NO_STUBID < sid \<and> sid < NUM_STUBIDS stubs \<longrightarrow>
            0 \<le> sid \<and> nat sid < length names \<and> stub_name stubs names sid = Inr (names ! nat sid))
       \<and> (\<not> (NO_STUBID < sid \<and> sid < NUM_STUBIDS stubs) \<longrightarrow>
            stub_name stubs names sid = Inl (AssertionFailed ''stub id out of range''))
       \<and> stub_name stubs names NO_STUBID = Inl (AssertionFailed ''stub id out of range'')
       \<and> NO_STUBID = - 1
       \<and> stub_name stubs names sid \<noteq> Inl IndexOutOfBounds"
  using assms by (auto simp: stub_name_def NUM_STUBIDS_length NO_STUBID_def)

theorem stub_name_safe_iff_in_range_witness:
  "length [''uncommon_trap'', ''exception'', ''new_instance''] = length [(), (), ()]
   \<and> NO_STUBID < 2 \<and> 2 < NUM_STUBIDS [(), (), ()]
   \<and> stub_name [(), (), ()] [''uncommon_trap'', ''exception'', ''new_instance''] 2
       = Inr ''new_instance''
   \<and> stub_name [(), (), ()] [''uncommon_trap'', ''exception'', ''new_instance''] 3
       = Inl (AssertionFailed ''stub id out of range'')
   \<and> stub_name [(), (), ()] [''uncommon_trap'', ''exception'', ''new_instance''] NO_STUBID
       = Inl (AssertionFailed ''stub id out of range'')"
proof -
  let ?names = "[''uncommon_trap'', ''exception'', ''new_instance'']"
  let ?stubs = "[(), (), ()]"
  have len: "length ?names = length ?stubs"
    by simp
  note at2 = stub_name_safe_iff_in_range [OF len, of 2]
  note at3 = stub_name_safe_iff_in_range [OF len, of 3]
  have r2: "NO_STUBID < 2 \<and> 2 < NUM_STUBIDS ?stubs"
    by (simp add: NUM_STUBIDS_length NO_STUBID_def)
  have r3: "\<not> (NO_STUBID < 3 \<and> 3 < NUM_STUBIDS ?stubs)"
    by (simp add: NUM_STUBIDS_length NO_STUBID_def)
  from at2 r2 have "stub_name ?stubs ?names 2 = Inr (?names ! nat 2)"
    by blast
  moreover have "?names ! nat 2 = ''new_instance''"
    by (simp add: numeral_2_eq_2)
  moreover from at3 r3
  have "stub_name ?stubs ?names 3 = Inl (AssertionFailed ''stub id out of range'')"
    by blast
  moreover from at2
  have "stub_name ?stubs ?names NO_STUBID = Inl (AssertionFailed ''stub id out of range'')"
    by blast
  ultimately show ?thesis
    using r2 len by simp
qed

subsection \<open>The constructor of a named counter\<close>

lemma strdup_fails_contract: "strdup_contract strdup_fails"
  by (simp add: strdup_contract_def strdup_fails_def)

lemma strdup_at_contract: "strdup_contract (strdup_at q)"
  by (auto simp: strdup_contract_def strdup_at_def)

text \<open>
  C10, as stated, fails where \<^verbatim>\<open>os::strdup\<close> cannot allocate: the constructor stores
  what \<^verbatim>\<open>os::strdup(n)\<close> returns, so \<^verbatim>\<open>name()\<close> is \<^verbatim>\<open>nullptr\<close> although \<open>n\<close> was not.
  The input: the string \<open>''lockA''\<close> at address 7 and a failing allocation.
\<close>

theorem name_null_iff_counterexample:
  "strdup_contract strdup_fails
   \<and> \<not> (NamedCounter_name (fst (new_NamedCounter strdup_fails [7 \<mapsto> ''lockA''] (Some 7) LockCounter)) = None
          \<longleftrightarrow> (Some 7 :: ptr) = None)"
  by (simp add: strdup_fails_contract new_NamedCounter_def strdup_fails_def NamedCounter_name_def)

text \<open>
  C10, amended. A freshly constructed \<^verbatim>\<open>NamedCounter(n, tag)\<close> has \<^verbatim>\<open>count() == 0\<close>,
  \<^verbatim>\<open>next() == nullptr\<close> and \<^verbatim>\<open>tag()\<close> equal to the given tag, \<open>NoTag\<close> when the tag
  is omitted. Its \<^verbatim>\<open>name()\<close> is \<^verbatim>\<open>nullptr\<close> exactly when \<open>n\<close> was \<^verbatim>\<open>nullptr\<close> or
  \<^verbatim>\<open>os::strdup(n)\<close> returned \<^verbatim>\<open>nullptr\<close>; otherwise it is the block \<^verbatim>\<open>os::strdup\<close>
  returned, a private copy of \<open>n\<close> at an address of its own: writing to the caller's
  string or freeing it afterwards leaves the characters of the name as they were. Here
  \<open>n\<close>, when not \<^verbatim>\<open>nullptr\<close>, points to a string of the C heap \<open>h\<close>, and \<^verbatim>\<open>os::strdup\<close>
  keeps the contract of \<^verbatim>\<open>strdup\<close>.
\<close>

theorem new_NamedCounter_fields:
  assumes contract: "strdup_contract os_strdup"
    and valid: "\<forall>p. n = Some p \<longrightarrow> p \<in> dom h"
    and new: "new_NamedCounter os_strdup h n tag = (c, h')"
  shows "NamedCounter_count c = 0 \<and> NamedCounter_next c = None \<and> NamedCounter_tag c = tag
       \<and> NamedCounter_tag (fst (new_NamedCounter_default os_strdup h n)) = NoTag
       \<and> (n = None \<longrightarrow> NamedCounter_name c = None \<and> h' = h)
       \<and> (NamedCounter_name c = None \<longleftrightarrow>
            n = None \<or> (\<exists>p. n = Some p \<and> fst (os_strdup h p) = None))
       \<and> (\<forall>p q. n = Some p \<and> NamedCounter_name c = Some q \<longrightarrow>
            q \<noteq> p \<and> q \<notin> dom h \<and> h' q = h p
            \<and> (\<forall>s. (h'(p \<mapsto> s)) q = h p) \<and> (h'(p := None)) q = h p)"
proof (cases n)
  case None
  with new show ?thesis
    by (auto simp: new_NamedCounter_def new_NamedCounter_default_def NamedCounter_count_def
        NamedCounter_next_def NamedCounter_tag_def NamedCounter_name_def split: prod.splits)
next
  case (Some p)
  with valid have p: "p \<in> dom h" by simp
  obtain r h1 where d: "os_strdup h p = (r, h1)" by (cases "os_strdup h p")
  have k: "case os_strdup h p of (None, h') \<Rightarrow> h' = h
            | (Some q, h') \<Rightarrow> q \<notin> dom h \<and> h' = h(q := h p)"
    using contract [unfolded strdup_contract_def, THEN spec, THEN spec, of h p] .
  from new Some d have c: "c = \<lparr>m_name = r, m_count = 0, m_tag = tag, m_next = None\<rparr>" and h': "h' = h1"
    by (simp_all add: new_NamedCounter_def)
  show ?thesis
  proof (cases r)
    case None
    with c h' Some d show ?thesis
      by (simp add: new_NamedCounter_default_def new_NamedCounter_def NamedCounter_count_def
        NamedCounter_next_def NamedCounter_tag_def NamedCounter_name_def)
  next
    case (Some q)
    with k d have q: "q \<notin> dom h" and h1: "h1 = h(q := h p)" by simp_all
    from q p have "q \<noteq> p" by blast
    with c h' \<open>n = Some p\<close> d Some q h1 show ?thesis
      by (simp add: new_NamedCounter_default_def new_NamedCounter_def NamedCounter_count_def
        NamedCounter_next_def NamedCounter_tag_def NamedCounter_name_def)
  qed
qed

theorem new_NamedCounter_fields_witness:
  "strdup_contract (strdup_at 9)
   \<and> new_NamedCounter (strdup_at 9) [7 :: addr \<mapsto> ''lockA''] (Some 7) LockCounter
       = (\<lparr>m_name = Some 9, m_count = 0, m_tag = LockCounter, m_next = None\<rparr>,
          [7 :: addr \<mapsto> ''lockA'', 9 \<mapsto> ''lockA''])
   \<and> NamedCounter_count \<lparr>m_name = Some 9, m_count = 0, m_tag = LockCounter, m_next = None\<rparr> = 0
   \<and> NamedCounter_next \<lparr>m_name = Some 9, m_count = 0, m_tag = LockCounter, m_next = None\<rparr> = None
   \<and> NamedCounter_tag \<lparr>m_name = Some 9, m_count = 0, m_tag = LockCounter, m_next = None\<rparr>
       = LockCounter
   \<and> NamedCounter_tag (fst (new_NamedCounter_default (strdup_at 9) [7 :: addr \<mapsto> ''lockA''] (Some 7)))
       = NoTag
   \<and> NamedCounter_name \<lparr>m_name = Some 9, m_count = 0, m_tag = LockCounter, m_next = None\<rparr>
       = Some 9
   \<and> [7 :: addr \<mapsto> ''lockA'', 9 \<mapsto> ''lockA''] 9 = [7 :: addr \<mapsto> ''lockA''] 7
   \<and> ([7 :: addr \<mapsto> ''lockA'', 9 \<mapsto> ''lockA''](7 \<mapsto> ''changed'')) 9 = Some ''lockA''
   \<and> ([7 :: addr \<mapsto> ''lockA'', 9 \<mapsto> ''lockA''](7 := None)) 9 = Some ''lockA''"
proof -
  let ?h = "[7 :: addr \<mapsto> ''lockA'']"
  let ?h' = "[7 :: addr \<mapsto> ''lockA'', 9 \<mapsto> ''lockA'']"
  let ?c = "\<lparr>m_name = Some 9, m_count = 0, m_tag = LockCounter, m_next = None\<rparr>"
  have valid: "\<forall>p. Some (7::nat) = Some p \<longrightarrow> p \<in> dom ?h"
    by simp
  have new: "new_NamedCounter (strdup_at 9) ?h (Some 7) LockCounter = (?c, ?h')"
    by (simp add: new_NamedCounter_def strdup_at_def)
  have nm: "NamedCounter_name ?c = Some 9"
    by (simp add: NamedCounter_name_def)
  note fields = new_NamedCounter_fields [OF strdup_at_contract valid new]
  from fields have basic: "NamedCounter_count ?c = 0 \<and> NamedCounter_next ?c = None
      \<and> NamedCounter_tag ?c = LockCounter
      \<and> NamedCounter_tag (fst (new_NamedCounter_default (strdup_at 9) ?h (Some 7))) = NoTag"
    by blast
  from fields nm have copy: "?h' 9 = ?h 7 \<and> (\<forall>s. (?h'(7 \<mapsto> s)) 9 = ?h 7)
      \<and> (?h'(7 := None)) 9 = ?h 7"
    by blast
  then have "(?h'(7 \<mapsto> ''changed'')) 9 = ?h 7" by blast
  then have changed: "(?h'(7 \<mapsto> ''changed'')) 9 = Some ''lockA''" by simp
  from copy have "(?h'(7 := None)) 9 = ?h 7" by blast
  then have freed: "(?h'(7 := None)) 9 = Some ''lockA''" by simp
  from copy have same: "?h' 9 = ?h 7" by blast
  show ?thesis
    using strdup_at_contract [of 9] new basic nm same changed freed by blast
qed

subsection \<open>The links of the named counters\<close>

lemma m_next_new_NamedCounter:
  "new_NamedCounter d h n tag = (c, h') \<Longrightarrow> m_next c = None"
  by (auto simp: new_NamedCounter_def split: prod.splits)

lemma set_next_unset:
  "m_next c = None \<Longrightarrow> NamedCounter_set_next c nxt = Inr (c\<lparr>m_next := nxt\<rparr>)"
  by (simp add: NamedCounter_set_next_def)

lemma new_named_counter_linked:
  assumes "linked st"
  shows "\<exists>c h'. new_named_counter d st n tag =
            Inr (Some (length (objects st)),
                 st\<lparr>objects := objects st @ [c], named_counters := Some (length (objects st)),
                    strings := h'\<rparr>)
          \<and> m_next c = named_counters st
          \<and> linked (st\<lparr>objects := objects st @ [c], named_counters := Some (length (objects st)),
                    strings := h'\<rparr>)"
proof -
  obtain c h' where new: "new_NamedCounter d (strings st) n tag = (c, h')"
    by (cases "new_NamedCounter d (strings st) n tag")
  let ?c = "c\<lparr>m_next := named_counters st\<rparr>"
  let ?st = "st\<lparr>objects := objects st @ [?c], named_counters := Some (length (objects st)),
                    strings := h'\<rparr>"
  from new have "NamedCounter_set_next c (named_counters st) = Inr ?c"
    by (simp add: set_next_unset m_next_new_NamedCounter)
  with new have run: "new_named_counter d st n tag = Inr (Some (length (objects st)), ?st)"
    by (simp add: new_named_counter_def)
  from assms have ch: "chained (objects st)" and hd: "named_counters st = head_of (objects st)"
    by (simp_all add: linked_def)
  have "chained (objects st @ [?c])"
    unfolding chained_def
  proof (intro allI impI)
    fix a assume "a < length (objects st @ [?c])"
    then consider "a < length (objects st)" | "a = length (objects st)" by fastforce
    then show "m_next ((objects st @ [?c]) ! a) = (if a = 0 then None else Some (a - 1))"
    proof cases
      case 1
      with ch show ?thesis by (simp add: chained_def nth_append)
    next
      case 2
      with hd show ?thesis by (auto simp: head_of_def nth_append)
    qed
  qed
  then have "linked ?st"
    by (simp add: linked_def head_of_def)
  with run show ?thesis by (intro exI [of _ ?c] exI [of _ h']) simp
qed

lemma new_named_counters_linked:
  "linked st \<Longrightarrow>
   \<exists>st'. new_named_counters d st rs = Inr st' \<and> linked st'
        \<and> length (objects st') = length (objects st) + length rs
        \<and> take (length (objects st)) (objects st') = objects st"
proof (induction rs arbitrary: st)
  case Nil
  then show ?case by simp
next
  case (Cons r rs)
  obtain n tag where r: "r = (n, tag)" by (cases r)
  from new_named_counter_linked [OF Cons.prems, of d n tag]
  obtain c h' where
    step: "new_named_counter d st n tag =
            Inr (Some (length (objects st)),
                 st\<lparr>objects := objects st @ [c], named_counters := Some (length (objects st)),
                    strings := h'\<rparr>)"
    and l: "linked (st\<lparr>objects := objects st @ [c], named_counters := Some (length (objects st)),
                    strings := h'\<rparr>)"
    by blast
  let ?st = "st\<lparr>objects := objects st @ [c], named_counters := Some (length (objects st)),
                    strings := h'\<rparr>"
  from Cons.IH [OF l] obtain st' where
    rest: "new_named_counters d ?st rs = Inr st'" and l': "linked st'"
    and len: "length (objects st') = length (objects ?st) + length rs"
    and pre: "take (length (objects ?st)) (objects st') = objects ?st"
    by blast
  from pre have "take (length (objects st)) (take (length (objects ?st)) (objects st')) = objects st"
    by simp
  then have "take (length (objects st)) (objects st') = objects st"
    by (simp add: min_def)
  with r step rest l' len show ?case by simp
qed

lemma walk_chained:
  "chained objs \<Longrightarrow> a < length objs \<Longrightarrow> a < fuel \<Longrightarrow>
   walk objs fuel (Some a) = Some (rev [0..<Suc a])"
proof (induction a arbitrary: fuel)
  case 0
  then obtain k where "fuel = Suc k" by (cases fuel) auto
  with 0 show ?case by (simp add: chained_def NamedCounter_next_def)
next
  case (Suc a)
  then obtain k where k: "fuel = Suc k" by (cases fuel) auto
  from Suc.prems have nx: "m_next (objs ! Suc a) = Some a" by (simp add: chained_def)
  from Suc.prems k have "walk objs k (Some a) = Some (rev [0..<Suc a])"
    by (intro Suc.IH) simp_all
  with k nx Suc.prems show ?case by (simp add: NamedCounter_next_def)
qed


lemma walk_head:
  assumes "linked st"
  shows "walk (objects st) (length (objects st)) (named_counters st)
           = Some (rev [0..<length (objects st)])"
proof (cases "objects st = []")
  case True
  with assms show ?thesis by (simp add: linked_def head_of_def)
next
  case False
  then have pos: "0 < length (objects st)" by simp
  with assms have "walk (objects st) (length (objects st)) (named_counters st)
      = walk (objects st) (length (objects st)) (Some (length (objects st) - 1))"
    by (simp add: linked_def head_of_def)
  also from assms pos have "\<dots> = Some (rev [0..<Suc (length (objects st) - 1)])"
    by (intro walk_chained) (simp_all add: linked_def)
  also from pos have "Suc (length (objects st) - 1) = length (objects st)" by simp
  finally show ?thesis .
qed

lemma linked_initial: "linked (initial_runtime h)"
  by (simp add: linked_def initial_runtime_def chained_def head_of_def)

text \<open>
  C6, as stated, fails: the assertion of \<^verbatim>\<open>set_next\<close> lets a set link be cleared
  (\<^verbatim>\<open>next == nullptr\<close>), after which it is unset and may be set again, to another
  counter. Three calls on one counter, none of which fails: the link goes from unset to
  the counter at address 1, back to unset, and to the counter at address 2.
\<close>

theorem set_next_reassigned_counterexample:
  "NamedCounter_set_next \<lparr>m_name = None, m_count = 0, m_tag = LockCounter, m_next = None\<rparr> (Some 1)
     = Inr \<lparr>m_name = None, m_count = 0, m_tag = LockCounter, m_next = Some 1\<rparr>
   \<and> NamedCounter_set_next \<lparr>m_name = None, m_count = 0, m_tag = LockCounter, m_next = Some 1\<rparr> None
     = Inr \<lparr>m_name = None, m_count = 0, m_tag = LockCounter, m_next = None\<rparr>
   \<and> NamedCounter_set_next \<lparr>m_name = None, m_count = 0, m_tag = LockCounter, m_next = None\<rparr> (Some 2)
     = Inr \<lparr>m_name = None, m_count = 0, m_tag = LockCounter, m_next = Some 2\<rparr>
   \<and> (Some 1 :: ptr) \<noteq> Some 2"
  by (simp add: NamedCounter_set_next_def)

text \<open>
  C6, amended. \<^verbatim>\<open>set_next(next)\<close> passes its assertion exactly when the link is unset
  or \<open>next\<close> is \<^verbatim>\<open>nullptr\<close>, and then stores \<open>next\<close>: a set link is never replaced by
  another counter in one step, but it can be cleared and set again. In the registry, where
  \<^verbatim>\<open>new_named_counter\<close> links each new counter in front of the head, every run from the
  empty list succeeds (no assertion fails: each link is set while unset), and after any
  further run: the old list is the tail of the new one, so no counter has been removed;
  the list holds every counter allocated, each once; the link of a counter that was in
  the list is what it was; and following the links from any counter reaches \<^verbatim>\<open>nullptr\<close>
  without visiting a counter twice, within as many steps as there are counters.
\<close>

theorem named_counter_links:
  "(NamedCounter_set_next c nxt = Inr c' \<longleftrightarrow>
      (NamedCounter_next c = None \<or> nxt = None) \<and> c' = c\<lparr>m_next := nxt\<rparr>)
   \<and> (\<exists>st1 st2 xs1 ys.
        new_named_counters d (initial_runtime h) rs1 = Inr st1
      \<and> new_named_counters d st1 rs2 = Inr st2
      \<and> walk (objects st1) (length (objects st1)) (named_counters st1) = Some xs1
      \<and> walk (objects st2) (length (objects st2)) (named_counters st2) = Some (ys @ xs1)
      \<and> set xs1 = {..<length (objects st1)}
      \<and> set (ys @ xs1) = {..<length (objects st2)}
      \<and> distinct (ys @ xs1)
      \<and> (\<forall>a < length (objects st1).
            NamedCounter_next (objects st2 ! a) = NamedCounter_next (objects st1 ! a))
      \<and> (\<forall>a < length (objects st2).
            \<exists>xs. walk (objects st2) (length (objects st2)) (Some a) = Some xs \<and> distinct xs))"
proof
  show "NamedCounter_set_next c nxt = Inr c' \<longleftrightarrow>
      (NamedCounter_next c = None \<or> nxt = None) \<and> c' = c\<lparr>m_next := nxt\<rparr>"
    by (auto simp: NamedCounter_set_next_def NamedCounter_next_def)
next
  from new_named_counters_linked [OF linked_initial, of d h rs1]
  obtain st1 where run1: "new_named_counters d (initial_runtime h) rs1 = Inr st1"
    and l1: "linked st1" by blast
  from new_named_counters_linked [OF l1, of d rs2]
  obtain st2 where run2: "new_named_counters d st1 rs2 = Inr st2"
    and l2: "linked st2"
    and len: "length (objects st2) = length (objects st1) + length rs2"
    and pre: "take (length (objects st1)) (objects st2) = objects st1" by blast
  let ?n1 = "length (objects st1)" and ?n2 = "length (objects st2)"
  let ?xs1 = "rev [0..<?n1]" and ?ys = "rev [?n1..<?n2]"
  from len have le: "?n1 \<le> ?n2" by simp
  then have split: "rev [0..<?n2] = ?ys @ ?xs1"
    by (metis le_add_diff_inverse rev_append upt_add_eq_append zero_le)
  have w1: "walk (objects st1) ?n1 (named_counters st1) = Some ?xs1"
    by (rule walk_head [OF l1])
  have w2: "walk (objects st2) ?n2 (named_counters st2) = Some (?ys @ ?xs1)"
    using walk_head [OF l2] split by simp
  have s1: "set ?xs1 = {..<?n1}" by auto
  have s2: "set (?ys @ ?xs1) = {..<?n2}" using le by auto
  have d2: "distinct (?ys @ ?xs1)" using split [symmetric] by simp
  have same: "\<forall>a < ?n1. NamedCounter_next (objects st2 ! a) = NamedCounter_next (objects st1 ! a)"
  proof (intro allI impI)
    fix a assume a: "a < ?n1"
    then have "take ?n1 (objects st2) ! a = objects st2 ! a" by simp
    with pre show "NamedCounter_next (objects st2 ! a) = NamedCounter_next (objects st1 ! a)"
      by simp
  qed
  have acyc: "\<forall>a < ?n2. \<exists>xs. walk (objects st2) ?n2 (Some a) = Some xs \<and> distinct xs"
  proof (intro allI impI)
    fix a assume a: "a < ?n2"
    from l2 have "chained (objects st2)" by (simp add: linked_def)
    from walk_chained [OF this a a]
    have "walk (objects st2) ?n2 (Some a) = Some (rev [0..<Suc a])" .
    then show "\<exists>xs. walk (objects st2) ?n2 (Some a) = Some xs \<and> distinct xs"
      by simp
  qed
  from run1 run2 w1 w2 s1 s2 d2 same acyc
  show "\<exists>st1 st2 xs1 ys.
        new_named_counters d (initial_runtime h) rs1 = Inr st1
      \<and> new_named_counters d st1 rs2 = Inr st2
      \<and> walk (objects st1) (length (objects st1)) (named_counters st1) = Some xs1
      \<and> walk (objects st2) (length (objects st2)) (named_counters st2) = Some (ys @ xs1)
      \<and> set xs1 = {..<length (objects st1)}
      \<and> set (ys @ xs1) = {..<length (objects st2)}
      \<and> distinct (ys @ xs1)
      \<and> (\<forall>a < length (objects st1).
            NamedCounter_next (objects st2 ! a) = NamedCounter_next (objects st1 ! a))
      \<and> (\<forall>a < length (objects st2).
            \<exists>xs. walk (objects st2) (length (objects st2)) (Some a) = Some xs \<and> distinct xs)"
    by blast
qed

theorem named_counter_links_witness:
  "\<exists>st1 st2 xs1 ys.
      new_named_counters strdup_fails (initial_runtime Map.empty) [(None, LockCounter)] = Inr st1
    \<and> new_named_counters strdup_fails st1 [(None, EliminatedLockCounter)] = Inr st2
    \<and> walk (objects st1) (length (objects st1)) (named_counters st1) = Some xs1
    \<and> walk (objects st2) (length (objects st2)) (named_counters st2) = Some (ys @ xs1)
    \<and> distinct (ys @ xs1)
    \<and> length (objects st1) = 1 \<and> length (objects st2) = 2
    \<and> xs1 = [0] \<and> ys = [1]
    \<and> NamedCounter_next (objects st2 ! 0) = NamedCounter_next (objects st1 ! 0)
    \<and> NamedCounter_next (objects st2 ! 0) = None
    \<and> NamedCounter_next (objects st2 ! 1) = Some 0
    \<and> (\<exists>xs. walk (objects st2) (length (objects st2)) (Some 1) = Some xs \<and> distinct xs)"
proof -
  let ?c1 = "\<lparr>m_name = None, m_count = 0, m_tag = LockCounter, m_next = None\<rparr>"
  let ?c2 = "\<lparr>m_name = None, m_count = 0, m_tag = EliminatedLockCounter, m_next = Some 0\<rparr>"
  let ?s1 = "\<lparr>objects = [?c1], named_counters = Some 0, strings = Map.empty\<rparr>"
  let ?s2 = "\<lparr>objects = [?c1, ?c2], named_counters = Some 1, strings = Map.empty\<rparr>"
  have e1: "new_named_counters strdup_fails (initial_runtime Map.empty) [(None, LockCounter)]
              = Inr ?s1"
    by (simp add: new_named_counter_def new_NamedCounter_def NamedCounter_set_next_def
        initial_runtime_def)
  have e2: "new_named_counters strdup_fails ?s1 [(None, EliminatedLockCounter)] = Inr ?s2"
    by (simp add: new_named_counter_def new_NamedCounter_def NamedCounter_set_next_def)
  from named_counter_links [of ?c1 "Some 0" "?c1\<lparr>m_next := Some 0\<rparr>" strdup_fails Map.empty
      "[(None, LockCounter)]" "[(None, EliminatedLockCounter)]"]
  obtain st1 st2 xs1 ys where
    r1: "new_named_counters strdup_fails (initial_runtime Map.empty) [(None, LockCounter)] = Inr st1"
    and r2: "new_named_counters strdup_fails st1 [(None, EliminatedLockCounter)] = Inr st2"
    and w1: "walk (objects st1) (length (objects st1)) (named_counters st1) = Some xs1"
    and w2: "walk (objects st2) (length (objects st2)) (named_counters st2) = Some (ys @ xs1)"
    and d: "distinct (ys @ xs1)"
    and same: "\<forall>a < length (objects st1).
            NamedCounter_next (objects st2 ! a) = NamedCounter_next (objects st1 ! a)"
    and acyc: "\<forall>a < length (objects st2).
            \<exists>xs. walk (objects st2) (length (objects st2)) (Some a) = Some xs \<and> distinct xs"
    by blast
  from r1 e1 have st1: "st1 = ?s1" by simp
  with r2 e2 have st2: "st2 = ?s2" by simp
  from w1 st1 have xs1: "xs1 = [0]"
    by (simp add: NamedCounter_next_def)
  from w2 st2 xs1 have ys: "ys = [1]"
    by (simp add: NamedCounter_next_def numeral_2_eq_2)
  from st1 have len1: "length (objects st1) = 1" by simp
  from st2 have len2: "length (objects st2) = 2" by simp
  from same len1 have s0: "NamedCounter_next (objects st2 ! 0) = NamedCounter_next (objects st1 ! 0)"
    by simp
  from acyc len2
  have a1: "\<exists>xs. walk (objects st2) (length (objects st2)) (Some 1) = Some xs \<and> distinct xs"
    by simp
  from st2 have n0: "NamedCounter_next (objects st2 ! 0) = None"
    and n1: "NamedCounter_next (objects st2 ! 1) = Some 0"
    by (simp_all add: NamedCounter_next_def)
  from r1 r2 w1 w2 d len1 len2 xs1 ys s0 n0 n1 a1 show ?thesis
    by blast
qed

end
